theory Spec2Isabelle
  imports Complex_Main "HOL-Library.Signed_Division"
begin

section \<open>The iteration exporter of the PorePy exporting tutorial\<close>

text \<open>
  The method \<open>save_data_iteration\<close> of the class \<open>IterationExporting\<close>
  (tutorials/exporting_models.ipynb) labels the vtu file of every nonlinear iteration with
  one integer, the \<open>time_step\<close> argument of \<open>write_vtu\<close>:
  \<^verbatim>\<open>
  n = self.params.get("max_iterations", 10)
  p = round(np.log10(n))
  r = 10**p
  if r <= n:
      r = 10 ** (p + 1)
  self.iteration_exporter.write_vtu(
      self.data_to_export_iteration(),
      time_dependent=True,
      time_step=self.nonlinear_solver_statistics.num_iteration + r * self.time_manager.time_index,
  )
  \<close>
  Python integers are unbounded and are modelled by \<open>int\<close>. An exception is a value
  \<open>Inl e\<close> of a sum type.
\<close>

subsection \<open>Errors\<close>

text \<open>
  \<open>TypeError\<close> is the exception that \<open>np.log10\<close> raises on a Python integer that fits
  no 64-bit machine integer. \<open>OverflowError\<close> and \<open>ValueError\<close> are the exceptions that
  Python's \<open>round\<close> raises on an infinite argument and on a NaN. \<open>InvalidConfiguration\<close>
  is the error that the specification names; no statement of the source raises it.
\<close>

datatype py_error = TypeError | OverflowError | ValueError | InvalidConfiguration

subsection \<open>The rounded decimal logarithm\<close>

text \<open>
  \<open>ilog10 n\<close> is the number of decimal digits of \<open>n\<close> minus one, that is
  \<open>\<lfloor>log\<^sub>1\<^sub>0 n\<rfloor>\<close> for \<open>n \<ge> 1\<close>.
\<close>

fun ilog10 :: "nat \<Rightarrow> nat" where
  "ilog10 n = (if n < 10 then 0 else Suc (ilog10 (n div 10)))"

declare ilog10.simps [simp del]

text \<open>
  \<open>round(np.log10(n))\<close> on a Python integer \<open>n\<close>.
  \<^item> \<open>np.log10\<close> first converts \<open>n\<close> to a machine integer, signed or unsigned, of 64 bits.
    An integer below \<open>-2\<^sup>6\<^sup>3\<close> or from \<open>2\<^sup>6\<^sup>4\<close> on has none: it becomes an array of
    Python objects, on which \<open>np.log10\<close> raises TypeError. This happens before \<open>round\<close>
    is called.
  \<^item> For \<open>n = 0\<close> the logarithm is \<open>-inf\<close> and \<open>round\<close> raises OverflowError; for the
    other negative \<open>n\<close> it is NaN and \<open>round\<close> raises ValueError (\<open>np.log10\<close> itself
    only warns).
  \<^item> For \<open>1 \<le> n < 2\<^sup>6\<^sup>4\<close> the logarithm is taken as the exact real number: it lies in
    \<open>[k, k + 1)\<close> for \<open>k = ilog10 n\<close>, and it is rounded up exactly when
    \<open>k + 1/2 \<le> log\<^sub>1\<^sub>0 n\<close>, that is when \<open>10 ^ (2 * k + 1) \<le> n\<^sup>2\<close>. The lemma
    \<open>round_log10_real\<close> below relates this integer computation to the real logarithm.
  The double-precision logarithm of the source differs from the real one by a rounding
  error. Where the real logarithm is within that error of \<open>k + 1/2\<close> (at
  \<open>n = 316227766016838\<close>, for example) the source may get the other one of \<open>k\<close> and
  \<open>k + 1\<close> for \<open>p\<close>; it never gets a third value. By the lemma
  \<open>radix_insensitive_to_rounding\<close> the radix is the same for both, so that
  \<open>compute_radix\<close> below is what the source computes also at these \<open>n\<close>.
\<close>

definition round_log10 :: "int \<Rightarrow> py_error + nat" where
  "round_log10 n =
     (if n < - (2 ^ 63) \<or> 2 ^ 64 \<le> n then Inl TypeError
      else if n = 0 then Inl OverflowError
      else if n < 0 then Inl ValueError
      else let k = ilog10 (nat n)
           in if 10 ^ (2 * k + 1) \<le> n * n then Inr (Suc k) else Inr k)"

text \<open>
  Python's \<open>round\<close> of a finite float, with ties going to the even neighbour. It is used
  only to state what \<open>round_log10\<close> computes.
\<close>

definition py_round :: "real \<Rightarrow> int" where
  "py_round x =
     (if frac x = 1 / 2 then (if even \<lfloor>x\<rfloor> then \<lfloor>x\<rfloor> else \<lfloor>x\<rfloor> + 1) else round x)"

subsection \<open>The radix and the encoded index\<close>

text \<open>
  Lines \<open>p = round(np.log10(n))\<close> to \<open>r = 10 ** (p + 1)\<close>: the factor \<open>r\<close> for a
  maximal number \<open>n\<close> of nonlinear iterations.
\<close>

definition compute_radix :: "int \<Rightarrow> py_error + int" where
  "compute_radix n =
     (case round_log10 n of
        Inl e \<Rightarrow> Inl e
      | Inr p \<Rightarrow>
          (let r = 10 ^ p
           in if r \<le> n then Inr (10 ^ (p + 1)) else Inr r))"

text \<open>
  The \<open>time_step\<close> argument, \<open>num_iteration + r * time_index\<close>, as a function of the
  time step index \<open>t\<close>, the iteration index \<open>i\<close> and the radix \<open>r\<close>.
\<close>

definition encode :: "int \<Rightarrow> int \<Rightarrow> int \<Rightarrow> int" where
  "encode t i r = i + r * t"

subsection \<open>The model object and \<open>save_data_iteration\<close>\<close>

text \<open>
  The fields of \<open>self\<close> that \<open>save_data_iteration\<close> touches: the integer entries of the
  dictionary \<open>params\<close>, the counter \<open>nonlinear_solver_statistics.num_iteration\<close>, the
  counter \<open>time_manager.time_index\<close>, and the iteration exporter, of which the model keeps
  the \<open>time_step\<close> of every vtu file written so far, oldest first.
\<close>

record model =
  params :: "string \<rightharpoonup> int"
  num_iteration :: int
  time_index :: int
  iteration_exporter :: "int list"

text \<open>\<open>self.params.get("max_iterations", 10)\<close>\<close>

definition max_iterations :: "model \<Rightarrow> int" where
  "max_iterations m = (case params m ''max_iterations'' of None \<Rightarrow> 10 | Some n \<Rightarrow> n)"

text \<open>The radix that a call of \<open>save_data_iteration\<close> computes.\<close>

definition radix_used :: "model \<Rightarrow> py_error + int" where
  "radix_used m = compute_radix (max_iterations m)"

text \<open>The \<open>time_step\<close> that a call of \<open>save_data_iteration\<close> hands to \<open>write_vtu\<close>.\<close>

definition time_step_label :: "model \<Rightarrow> py_error + int" where
  "time_step_label m =
     (case radix_used m of
        Inl e \<Rightarrow> Inl e
      | Inr r \<Rightarrow> Inr (encode (time_index m) (num_iteration m) r))"

definition save_data_iteration :: "model \<Rightarrow> py_error + model" where
  "save_data_iteration m =
     (case time_step_label m of
        Inl e \<Rightarrow> Inl e
      | Inr l \<Rightarrow> Inr (m\<lparr>iteration_exporter := iteration_exporter m @ [l]\<rparr>))"

subsection \<open>A run of the simulation driver\<close>

text \<open>
  The driver (\<open>pp.run_time_dependent_model\<close>, not part of the tutorial) owns the two
  counters. Before each call of \<open>after_nonlinear_iteration\<close>, hence of
  \<open>save_data_iteration\<close>, it has set them to some values \<open>(time_index, num_iteration)\<close>;
  a run is the list of these pairs in program order. An exception ends the run.
\<close>

definition set_counters :: "model \<Rightarrow> int \<times> int \<Rightarrow> model" where
  "set_counters m c = m\<lparr>time_index := fst c, num_iteration := snd c\<rparr>"

fun run :: "model \<Rightarrow> (int \<times> int) list \<Rightarrow> py_error + model" where
  "run m [] = Inr m"
| "run m (c # cs) =
     (case save_data_iteration (set_counters m c) of
        Inl e \<Rightarrow> Inl e
      | Inr m' \<Rightarrow> run m' cs)"

text \<open>The radix computed by each call of a run, in program order.\<close>

fun radices :: "model \<Rightarrow> (int \<times> int) list \<Rightarrow> (py_error + int) list" where
  "radices m [] = []"
| "radices m (c # cs) =
     radix_used (set_counters m c) #
     (case save_data_iteration (set_counters m c) of
        Inl e \<Rightarrow> []
      | Inr m' \<Rightarrow> radices m' cs)"

text \<open>
  The discipline of the driver that the ordering of the labels relies on: from one call
  to the next either the iteration index grows by one within the same time step, or a new
  time step begins, the time step index grows by one and the iteration index is reset to
  zero; and every iteration index lies in \<open>[0, r)\<close>.
\<close>

fun counters_advance :: "(int \<times> int) list \<Rightarrow> bool" where
  "counters_advance (c # d # cs) =
     (((fst d = fst c \<and> snd d = snd c + 1) \<or> (fst d = fst c + 1 \<and> snd d = 0))
      \<and> counters_advance (d # cs))"
| "counters_advance cs = True"

definition iterations_below :: "int \<Rightarrow> (int \<times> int) list \<Rightarrow> bool" where
  "iterations_below r cs = list_all (\<lambda>c. 0 \<le> snd c \<and> snd c < r) cs"

definition labels :: "int \<Rightarrow> (int \<times> int) list \<Rightarrow> int list" where
  "labels r cs = map (\<lambda>c. encode (fst c) (snd c) r) cs"

section \<open>Properties\<close>

lemma ilog10_small: "n < 10 \<Longrightarrow> ilog10 n = 0"
  by (simp add: ilog10.simps)

lemma ilog10_large: "10 \<le> n \<Longrightarrow> ilog10 n = Suc (ilog10 (n div 10))"
  by (simp add: ilog10.simps)

subsection \<open>The radix\<close>

lemma ilog10_bounds: "0 < n \<Longrightarrow> 10 ^ ilog10 n \<le> n \<and> n < 10 ^ Suc (ilog10 n)"
proof (induction n rule: ilog10.induct)
  case (1 n)
  show ?case
  proof (cases "n < 10")
    case True
    with "1.prems" show ?thesis by (simp add: ilog10_small)
  next
    case False
    then have pos: "0 < n div 10" by simp
    from "1.IH" [OF False pos]
    have lo: "10 ^ ilog10 (n div 10) \<le> n div 10"
      and hi: "n div 10 < 10 ^ Suc (ilog10 (n div 10))" by simp_all
    from lo have "10 * 10 ^ ilog10 (n div 10) \<le> 10 * (n div 10)" by simp
    also have "\<dots> \<le> n" by simp
    finally have a: "10 ^ Suc (ilog10 (n div 10)) \<le> n" by simp
    from hi have "Suc (n div 10) \<le> 10 ^ Suc (ilog10 (n div 10))" by simp
    then have "10 * Suc (n div 10) \<le> 10 * 10 ^ Suc (ilog10 (n div 10))"
      by (rule mult_le_mono2)
    moreover have "n < 10 * Suc (n div 10)"
      using dividend_less_times_div [of 10 n] by simp
    ultimately have b: "n < 10 ^ Suc (Suc (ilog10 (n div 10)))" by simp
    from False a b show ?thesis by (simp add: ilog10_large)
  qed
qed

lemma ilog10_int_bounds:
  assumes "0 < (n::int)"
  shows "10 ^ ilog10 (nat n) \<le> n" and "n < 10 ^ Suc (ilog10 (nat n))"
proof -
  from assms have "0 < nat n" by simp
  from ilog10_bounds [OF this]
  have "10 ^ ilog10 (nat n) \<le> nat n" and "nat n < 10 ^ Suc (ilog10 (nat n))" by simp_all
  then have "int (10 ^ ilog10 (nat n)) \<le> int (nat n)"
    and "int (nat n) < int (10 ^ Suc (ilog10 (nat n)))"
    by (simp_all only: of_nat_le_iff of_nat_less_iff)
  with assms show "10 ^ ilog10 (nat n) \<le> n" and "n < 10 ^ Suc (ilog10 (nat n))"
    by simp_all
qed

text \<open>
  No square is an odd power of ten (modulo 11 the squares are 0, 1, 3, 4, 5 and 9, the
  odd powers of ten are 10), so the logarithm of an integer never lies halfway between
  two integers and the tie rule of \<open>round\<close> never applies.
\<close>

lemma odd_power10_mod11: "(10::int) ^ (2 * k + 1) mod 11 = 10"
proof (induction k)
  case 0
  show ?case by simp
next
  case (Suc k)
  have "(10::int) ^ (2 * Suc k + 1) = 100 * 10 ^ (2 * k + 1)" by simp
  also have "\<dots> mod 11 = (100 mod 11) * (10 ^ (2 * k + 1) mod 11) mod 11"
    by (simp only: mod_mult_eq)
  also have "\<dots> = 10" by (simp only: Suc.IH) simp
  finally show ?case .
qed

lemma square_mod11: "(n::int) * n mod 11 \<noteq> 10"
proof -
  define a where "a = n mod 11"
  have "0 \<le> a" "a < 11" by (simp_all add: a_def)
  then have cases: "a = 0 \<or> a = 1 \<or> a = 2 \<or> a = 3 \<or> a = 4 \<or> a = 5 \<or> a = 6 \<or> a = 7
      \<or> a = 8 \<or> a = 9 \<or> a = 10" by arith
  have "n * n mod 11 = a * a mod 11" by (simp only: a_def mod_mult_eq)
  moreover from cases have "a * a mod 11 \<noteq> 10" by (elim disjE) simp_all
  ultimately show ?thesis by simp
qed

lemma square_not_odd_power10: "(n::int) * n \<noteq> 10 ^ (2 * k + 1)"
  using square_mod11 [of n] odd_power10_mod11 [of k] by metis

lemma log10_lower:
  assumes "(10::int) ^ j \<le> m"
  shows "real j \<le> log 10 (real_of_int m)"
proof -
  from assms have "real_of_int (10 ^ j) \<le> real_of_int m" by (simp only: of_int_le_iff)
  then have "(10::real) ^ j \<le> real_of_int m" by simp
  then show ?thesis by (rule le_log_of_power) simp
qed

lemma log10_upper:
  assumes "0 < m" "m < (10::int) ^ j"
  shows "log 10 (real_of_int m) < real j"
proof -
  from assms(2) have "real_of_int m < real_of_int (10 ^ j)" by (simp only: of_int_less_iff)
  then have "real_of_int m < (10::real) ^ j" by simp
  with assms(1) show ?thesis by (simp add: log_less_iff powr_realpow)
qed

lemma log10_exact:
  assumes "0 < m" "log 10 (real_of_int m) = real j"
  shows "m = (10::int) ^ j"
proof -
  from assms(1) have "0 < real_of_int m" by simp
  then have "real_of_int m = 10 powr log 10 (real_of_int m)" by simp
  also have "\<dots> = 10 ^ j" by (simp only: assms(2)) (simp add: powr_realpow)
  also have "\<dots> = real_of_int (10 ^ j)" by simp
  finally show ?thesis by (simp only: of_int_eq_iff)
qed

text \<open>
  On a positive integer below \<open>2\<^sup>6\<^sup>4\<close>, \<open>round_log10\<close> is Python's \<open>round\<close> of the
  real decimal logarithm.
\<close>

lemma round_log10_real:
  assumes "0 < n" and small: "n < 2 ^ 64"
  shows "round_log10 n = Inr (nat (py_round (log 10 (real_of_int n))))"
proof -
  define k where "k = ilog10 (nat n)"
  define x where "x = log 10 (real_of_int n)"
  from assms have n: "0 < real_of_int n" and n2: "0 < n * n" by simp_all
  from ilog10_int_bounds [OF assms(1)]
  have lo: "10 ^ k \<le> n" and hi: "n < 10 ^ Suc k" by (simp_all only: k_def)
  from lo have xlo: "real k \<le> x" unfolding x_def by (rule log10_lower)
  from assms(1) hi have xhi: "x < real (Suc k)" unfolding x_def by (rule log10_upper)
  from xlo xhi have fl: "\<lfloor>x\<rfloor> = int k" by (intro floor_unique) simp_all
  have x2: "log 10 (real_of_int (n * n)) = 2 * x"
    using n by (simp add: x_def log_mult)
  have tie: "x \<noteq> real k + 1 / 2"
  proof
    assume "x = real k + 1 / 2"
    with x2 have "log 10 (real_of_int (n * n)) = real (2 * k + 1)" by simp
    with n2 have "n * n = 10 ^ (2 * k + 1)" by (rule log10_exact)
    with square_not_odd_power10 show False by blast
  qed
  from fl have "frac x = x - real k" by (simp add: frac_def)
  with tie have py: "py_round x = round x" by (simp add: py_round_def)
  show ?thesis
  proof (cases "10 ^ (2 * k + 1) \<le> n * n")
    case True
    then have "real (2 * k + 1) \<le> log 10 (real_of_int (n * n))" by (rule log10_lower)
    with x2 have "real k + 1 / 2 \<le> x" by simp
    with xhi have "round x = int (Suc k)"
      by (intro round_unique) simp_all
    with py have "nat (py_round x) = Suc k" by simp
    moreover from True assms have "round_log10 n = Inr (Suc k)"
      by (simp add: round_log10_def Let_def k_def)
    ultimately show ?thesis by (simp add: x_def)
  next
    case False
    then have "n * n < 10 ^ (2 * k + 1)" by simp
    with n2 have "log 10 (real_of_int (n * n)) < real (2 * k + 1)" by (rule log10_upper)
    with x2 have "x < real k + 1 / 2" by simp
    with xlo have "round x = int k"
      by (intro round_unique) simp_all
    with py have "nat (py_round x) = k" by simp
    moreover from False assms have "round_log10 n = Inr k"
      by (simp add: round_log10_def Let_def k_def)
    ultimately show ?thesis by (simp add: x_def)
  qed
qed

text \<open>
  The radix does not depend on the direction of the rounding: with either neighbour of
  the logarithm for \<open>p\<close>, lines \<open>r = 10**p\<close> to \<open>r = 10 ** (p + 1)\<close> end with the same
  \<open>r\<close>. An error of the floating-point logarithm changes the result only if it moves
  \<open>p\<close> beyond these two values.
\<close>

lemma radix_insensitive_to_rounding:
  assumes "0 < n" "p = ilog10 (nat n) \<or> p = Suc (ilog10 (nat n))"
  shows "(let r = 10 ^ p in if r \<le> n then 10 ^ (p + 1) else r) = (10::int) ^ Suc (ilog10 (nat n))"
proof -
  from ilog10_int_bounds [OF assms(1)]
  have lo: "10 ^ ilog10 (nat n) \<le> n" and hi: "n < 10 ^ Suc (ilog10 (nat n))" by simp_all
  from assms(2) show ?thesis
  proof
    assume "p = ilog10 (nat n)"
    with lo show ?thesis by (simp add: Let_def)
  next
    assume "p = Suc (ilog10 (nat n))"
    with hi show ?thesis by (simp add: Let_def)
  qed
qed

lemma compute_radix_pos:
  assumes "0 < n" "n < 2 ^ 64"
  shows "compute_radix n = Inr (10 ^ Suc (ilog10 (nat n)))"
proof -
  let ?k = "ilog10 (nat n)"
  from ilog10_int_bounds [OF assms(1)]
  have lo: "10 ^ ?k \<le> n" and hi: "n < 10 ^ Suc ?k" by simp_all
  show ?thesis
  proof (cases "10 ^ (2 * ?k + 1) \<le> n * n")
    case True
    with assms have "round_log10 n = Inr (Suc ?k)"
      by (simp add: round_log10_def Let_def)
    with hi show ?thesis by (simp add: compute_radix_def Let_def)
  next
    case False
    with assms have "round_log10 n = Inr ?k"
      by (simp add: round_log10_def Let_def)
    with lo show ?thesis by (simp add: compute_radix_def Let_def)
  qed
qed

text \<open>
  Claim C1, as stated, is about every positive integer. The integer \<open>2\<^sup>6\<^sup>4\<close> is
  positive, and there \<open>np.log10\<close> raises TypeError: no radix is returned.
\<close>

theorem compute_radix_two_power_64:
  "(0::int) < 18446744073709551616 \<and> (18446744073709551616::int) = 2 ^ 64
     \<and> compute_radix 18446744073709551616 = Inl TypeError"
  by (simp add: compute_radix_def round_log10_def)

text \<open>
  Claim C1, amended. For every positive integer \<open>n\<close> below \<open>2\<^sup>6\<^sup>4\<close> the radix
  computation returns the smallest power of ten that is strictly greater than \<open>n\<close>: the
  result is a power of ten, it exceeds \<open>n\<close>, and every power of ten that exceeds \<open>n\<close> is
  at least as large.
\<close>

theorem compute_radix_smallest_power:
  assumes "0 < n" "n < 2 ^ 64"
  shows "\<exists>k. compute_radix n = Inr (10 ^ k) \<and> n < 10 ^ k
           \<and> (\<forall>j. n < 10 ^ j \<longrightarrow> (10::int) ^ k \<le> 10 ^ j)"
proof -
  let ?k = "ilog10 (nat n)"
  from ilog10_int_bounds [OF assms(1)]
  have lo: "10 ^ ?k \<le> n" and hi: "n < 10 ^ Suc ?k" by simp_all
  have "(10::int) ^ Suc ?k \<le> 10 ^ j" if "n < 10 ^ j" for j
  proof -
    from lo that have "(10::int) ^ ?k < 10 ^ j" by linarith
    then have "?k < j" by simp
    then have "Suc ?k \<le> j" by simp
    then show ?thesis by (rule power_increasing) simp
  qed
  with compute_radix_pos [OF assms] hi show ?thesis by blast
qed

theorem compute_radix_smallest_power_witness:
  "(0::int) < 10 \<and> (10::int) < 2 ^ 64
     \<and> (\<exists>k. compute_radix 10 = Inr (10 ^ k) \<and> (10::int) < 10 ^ k
           \<and> (\<forall>j. (10::int) < 10 ^ j \<longrightarrow> (10::int) ^ k \<le> 10 ^ j))"
  using compute_radix_smallest_power [of 10] by simp

text \<open>
  Claim C6. The concrete radix values: 100 for 10, 10 for 4, 10 for 9, 100 for 11, and 10
  for the boundary value 1.
\<close>

theorem compute_radix_concrete:
  "compute_radix 10 = Inr 100 \<and> compute_radix 4 = Inr 10 \<and> compute_radix 9 = Inr 10
     \<and> compute_radix 11 = Inr 100 \<and> compute_radix 1 = Inr 10"
  by (simp add: compute_radix_def round_log10_def ilog10_small ilog10_large)

subsection \<open>The encoded index\<close>

lemma encode_step_less:
  assumes "t1 < t2" "0 \<le> r" "i1 < r" "0 \<le> i2"
  shows "encode t1 i1 r < encode t2 i2 r"
proof -
  from assms have r: "0 \<le> r" and t: "t1 + 1 \<le> t2" by simp_all
  have "r * (t1 + 1) \<le> r * t2" using t r by (rule mult_left_mono)
  then have "r * t1 + r \<le> r * t2" by (simp add: distrib_left)
  with assms show ?thesis by (simp add: encode_def)
qed

text \<open>
  Claim C2. For iteration indices \<open>i1\<close> and \<open>i2\<close> in \<open>[0, r)\<close>, the encoded indices
  compare as the pairs (time step index, iteration index) compare lexicographically. In
  particular the encoding is strictly increasing in the iteration index within one time
  step, and every encoded index of an earlier time step is below every encoded index of
  a later one. The time step indices may be any integers, so also any non-negative ones.
\<close>

theorem encode_order_iff:
  assumes "0 \<le> i1" "i1 < r" "0 \<le> i2" "i2 < r"
  shows "(encode t1 i1 r < encode t2 i2 r \<longleftrightarrow> t1 < t2 \<or> (t1 = t2 \<and> i1 < i2))
       \<and> (t1 = t2 \<and> i1 < i2 \<longrightarrow> encode t1 i1 r < encode t2 i2 r)
       \<and> (t1 < t2 \<longrightarrow> encode t1 i1 r < encode t2 i2 r)"
proof -
  from assms have r: "0 \<le> r" by simp
  consider (lt) "t1 < t2" | (eq) "t1 = t2" | (gt) "t2 < t1" by linarith
  then have "encode t1 i1 r < encode t2 i2 r \<longleftrightarrow> t1 < t2 \<or> (t1 = t2 \<and> i1 < i2)"
  proof cases
    case lt
    then have "encode t1 i1 r < encode t2 i2 r"
      using r assms(2) assms(3) by (rule encode_step_less)
    with lt show ?thesis by simp
  next
    case eq
    then show ?thesis by (simp add: encode_def)
  next
    case gt
    then have "encode t2 i2 r < encode t1 i1 r"
      using r assms(4) assms(1) by (rule encode_step_less)
    with gt show ?thesis by simp
  qed
  then show ?thesis by blast
qed

theorem encode_order_iff_witness:
  "encode 0 2 100 < encode 1 0 100 \<and> encode 1 0 100 < encode 1 1 100
     \<and> \<not> encode 1 0 100 < encode 0 99 100"
  using encode_order_iff [of 2 100 0 0 1] encode_order_iff [of 0 100 1 1 1]
    encode_order_iff [of 0 100 99 1 0]
  by simp

text \<open>
  Claim C3. For an iteration index \<open>i\<close> in \<open>[0, r)\<close>, division of the encoded index by
  the radix gives back the time step index and the remainder gives back the iteration
  index. This holds for Python's floor division (\<open>div\<close>, \<open>mod\<close>) at every time step
  index, and for truncated division (\<open>sdiv\<close>, \<open>smod\<close>) at every non-negative one.
\<close>

theorem encode_decode:
  assumes "0 \<le> i" "i < r"
  shows "encode t i r div r = t \<and> encode t i r mod r = i
       \<and> (0 \<le> t \<longrightarrow> encode t i r sdiv r = t \<and> encode t i r smod r = i)"
proof -
  from assms have r: "0 < r" by simp
  have d: "encode t i r div r = t" using assms r by (simp add: encode_def)
  have m: "encode t i r mod r = i" using assms r by (simp add: encode_def)
  have "encode t i r sdiv r = t \<and> encode t i r smod r = i" if "0 \<le> t"
  proof -
    from that r have "0 \<le> r * t" by simp
    with assms have e: "0 \<le> encode t i r" by (simp add: encode_def)
    show ?thesis
    proof (cases "encode t i r = 0")
      case True
      with d m r show ?thesis by (simp add: signed_divide_int_def signed_modulo_int_def)
    next
      case False
      with e have "0 < encode t i r" by simp
      with d m r show ?thesis by (simp add: signed_divide_int_def signed_modulo_int_def)
    qed
  qed
  with d m show ?thesis by blast
qed

theorem encode_decode_witness:
  "encode 3 7 100 = 307 \<and> encode 3 7 100 div 100 = 3 \<and> encode 3 7 100 mod 100 = 7
     \<and> encode 3 7 100 sdiv 100 = 3 \<and> encode 3 7 100 smod 100 = 7"
  using encode_decode [of 7 100 3] by (simp add: encode_def)

subsection \<open>Calls of \<open>save_data_iteration\<close> and runs\<close>

lemma radix_used_set_counters [simp]: "radix_used (set_counters m c) = radix_used m"
  by (simp add: radix_used_def max_iterations_def set_counters_def)

lemma radix_used_exporter [simp]:
  "radix_used (m\<lparr>iteration_exporter := xs\<rparr>) = radix_used m"
  by (simp add: radix_used_def max_iterations_def)

lemma save_data_iteration_Inr:
  assumes "radix_used m = Inr r"
  shows "save_data_iteration m =
           Inr (m\<lparr>iteration_exporter :=
                    iteration_exporter m @ [encode (time_index m) (num_iteration m) r]\<rparr>)"
  using assms by (simp add: save_data_iteration_def time_step_label_def)

lemma run_Inr:
  assumes "radix_used m = Inr r"
  shows "\<exists>m'. run m cs = Inr m' \<and> params m' = params m
            \<and> iteration_exporter m' = iteration_exporter m @ labels r cs"
  using assms
proof (induction cs arbitrary: m)
  case Nil
  then show ?case by (simp add: labels_def)
next
  case (Cons c cs)
  let ?m1 = "set_counters m c"
  let ?m2 = "?m1\<lparr>iteration_exporter := iteration_exporter ?m1 @ [encode (fst c) (snd c) r]\<rparr>"
  from Cons.prems have r1: "radix_used ?m1 = Inr r" by simp
  from save_data_iteration_Inr [OF r1]
  have s: "save_data_iteration ?m1 = Inr ?m2" by (simp add: set_counters_def)
  from Cons.prems have "radix_used ?m2 = Inr r" by simp
  from Cons.IH [OF this] obtain m' where
    m': "run ?m2 cs = Inr m'" "params m' = params ?m2"
      "iteration_exporter m' = iteration_exporter ?m2 @ labels r cs"
    by blast
  from s m' show ?case by (simp add: labels_def set_counters_def)
qed

lemma labels_sorted:
  assumes "counters_advance cs" "iterations_below r cs"
  shows "sorted_wrt (<) (labels r cs)"
  using assms
proof (induction cs rule: counters_advance.induct)
  case (1 c d cs)
  from "1.prems" have adv: "(fst d = fst c \<and> snd d = snd c + 1) \<or> (fst d = fst c + 1 \<and> snd d = 0)"
    and rest: "counters_advance (d # cs)" by simp_all
  from "1.prems" have c: "0 \<le> snd c" "snd c < r" and d: "0 \<le> snd d" "snd d < r"
    and below: "iterations_below r (d # cs)"
    by (simp_all add: iterations_below_def)
  from "1.IH" [OF rest below] have sorted: "sorted_wrt (<) (labels r (d # cs))" .
  from adv have "encode (fst c) (snd c) r < encode (fst d) (snd d) r"
  proof
    assume "fst d = fst c \<and> snd d = snd c + 1"
    then show ?thesis by (simp add: encode_def)
  next
    assume "fst d = fst c + 1 \<and> snd d = 0"
    with c show ?thesis by (simp add: encode_def distrib_left)
  qed
  with sorted show ?case by (auto simp add: labels_def)
qed (simp_all add: labels_def)

text \<open>
  Claim C4. When the driver advances the counters as described (the iteration index grows
  by one within a time step, a new time step raises the time step index by one and resets
  the iteration index to zero) and no iteration index reaches the radix, every call of the
  run succeeds, the labels it writes are the encoded indices in program order, and they
  are strictly increasing. With \<open>max_iterations = 10\<close>, the time step indices
  \<open>[0,0,0,1,1]\<close> and the iteration indices \<open>[0,1,2,0,1]\<close> give the labels
  \<open>[0,1,2,100,101]\<close>.
\<close>

theorem export_labels_increasing:
  "(radix_used m = Inr r \<and> counters_advance cs \<and> iterations_below r cs \<longrightarrow>
      (\<exists>m'. run m cs = Inr m'
            \<and> iteration_exporter m' = iteration_exporter m @ labels r cs)
      \<and> sorted_wrt (<) (labels r cs))
   \<and> run \<lparr>params = [''max_iterations'' \<mapsto> 10], num_iteration = 0, time_index = 0,
           iteration_exporter = []\<rparr>
        [(0, 0), (0, 1), (0, 2), (1, 0), (1, 1)]
      = Inr \<lparr>params = [''max_iterations'' \<mapsto> 10], num_iteration = 1, time_index = 1,
             iteration_exporter = [0, 1, 2, 100, 101]\<rparr>"
proof (intro conjI impI)
  assume a: "radix_used m = Inr r \<and> counters_advance cs \<and> iterations_below r cs"
  from a run_Inr [of m r cs]
  show "\<exists>m'. run m cs = Inr m' \<and> iteration_exporter m' = iteration_exporter m @ labels r cs"
    by blast
  from a show "sorted_wrt (<) (labels r cs)" by (simp add: labels_sorted)
next
  have r: "compute_radix 10 = Inr 100"
    by (simp add: compute_radix_def round_log10_def ilog10_small ilog10_large)
  show "run \<lparr>params = [''max_iterations'' \<mapsto> 10], num_iteration = 0, time_index = 0,
           iteration_exporter = []\<rparr>
        [(0, 0), (0, 1), (0, 2), (1, 0), (1, 1)]
      = Inr \<lparr>params = [''max_iterations'' \<mapsto> 10], num_iteration = 1, time_index = 1,
             iteration_exporter = [0, 1, 2, 100, 101]\<rparr>"
    by (simp add: save_data_iteration_def time_step_label_def radix_used_def
        max_iterations_def set_counters_def encode_def r)
qed

theorem export_labels_increasing_witness:
  "radix_used \<lparr>params = [''max_iterations'' \<mapsto> 4], num_iteration = 0, time_index = 0,
           iteration_exporter = []\<rparr> = Inr 10
   \<and> counters_advance [(0, 0), (0, 1), (1, 0), (2, 0), (2, 1), (2, 2)]
   \<and> iterations_below 10 [(0, 0), (0, 1), (1, 0), (2, 0), (2, 1), (2, 2)]
   \<and> labels 10 [(0, 0), (0, 1), (1, 0), (2, 0), (2, 1), (2, 2)] = [0, 1, 10, 20, 21, 22]
   \<and> sorted_wrt (<) (labels 10 [(0, 0), (0, 1), (1, 0), (2, 0), (2, 1), (2, 2)])"
proof -
  have r: "compute_radix 4 = Inr 10"
    by (simp add: compute_radix_def round_log10_def ilog10_small)
  let ?m = "\<lparr>params = [''max_iterations'' \<mapsto> 4], num_iteration = 0, time_index = 0,
           iteration_exporter = []\<rparr>"
  let ?cs = "[(0, 0), (0, 1), (1, 0), (2, 0), (2, 1), (2, 2)] :: (int \<times> int) list"
  have 1: "radix_used ?m = Inr 10" by (simp add: radix_used_def max_iterations_def r)
  have 2: "counters_advance ?cs" by simp
  have 3: "iterations_below 10 ?cs" by (simp add: iterations_below_def)
  have 4: "labels 10 ?cs = [0, 1, 10, 20, 21, 22]" by (simp add: labels_def encode_def)
  from export_labels_increasing [of ?m 10 ?cs] 1 2 3
  have "sorted_wrt (<) (labels 10 ?cs)" by blast
  with 1 2 3 4 show ?thesis by blast
qed

text \<open>
  Claim C7. The encoder checks nothing. Once the radix computation has returned a radix
  \<open>r\<close>, the call succeeds and writes the label \<open>time_index * r + num_iteration\<close>, and
  it does so for every time step index \<open>t\<close> and every iteration index \<open>i\<close> that the
  driver may have set, also for an iteration index at or above the radix: no branch of
  the computation depends on the iteration index.
\<close>

theorem encode_unchecked:
  assumes "radix_used m = Inr r"
  shows "time_step_label m = Inr (time_index m * r + num_iteration m)
       \<and> save_data_iteration m =
           Inr (m\<lparr>iteration_exporter :=
                    iteration_exporter m @ [time_index m * r + num_iteration m]\<rparr>)
       \<and> (\<forall>t i. save_data_iteration (set_counters m (t, i)) =
                  Inr ((set_counters m (t, i))\<lparr>iteration_exporter :=
                         iteration_exporter m @ [t * r + i]\<rparr>))"
proof -
  have e: "encode t i r = t * r + i" for t i by (simp add: encode_def)
  from assms have "time_step_label m = Inr (time_index m * r + num_iteration m)"
    by (simp add: time_step_label_def e)
  moreover from save_data_iteration_Inr [OF assms]
  have "save_data_iteration m =
           Inr (m\<lparr>iteration_exporter :=
                    iteration_exporter m @ [time_index m * r + num_iteration m]\<rparr>)"
    by (simp only: e)
  moreover have "save_data_iteration (set_counters m (t, i)) =
                  Inr ((set_counters m (t, i))\<lparr>iteration_exporter :=
                         iteration_exporter m @ [t * r + i]\<rparr>)" for t i
  proof -
    from assms have "radix_used (set_counters m (t, i)) = Inr r" by simp
    from save_data_iteration_Inr [OF this] show ?thesis
      by (simp add: set_counters_def e)
  qed
  ultimately show ?thesis by blast
qed

theorem encode_unchecked_witness:
  "radix_used \<lparr>params = [''max_iterations'' \<mapsto> 10], num_iteration = 100,
                         time_index = 0, iteration_exporter = []\<rparr> = Inr 100
   \<and> save_data_iteration \<lparr>params = [''max_iterations'' \<mapsto> 10], num_iteration = 100,
                         time_index = 0, iteration_exporter = []\<rparr>
       = Inr \<lparr>params = [''max_iterations'' \<mapsto> 10], num_iteration = 100,
                         time_index = 0, iteration_exporter = [100]\<rparr>
   \<and> encode 0 100 100 = encode 1 0 100"
proof -
  let ?m = "\<lparr>params = [''max_iterations'' \<mapsto> 10], num_iteration = 100,
                         time_index = 0, iteration_exporter = []\<rparr>"
  have r: "compute_radix 10 = Inr 100"
    by (simp add: compute_radix_def round_log10_def ilog10_small ilog10_large)
  have 2: "radix_used ?m = Inr 100" by (simp add: radix_used_def max_iterations_def r)
  from encode_unchecked [OF 2]
  have 3: "save_data_iteration ?m = Inr (?m\<lparr>iteration_exporter := [100]\<rparr>)" by simp
  have 4: "encode 0 100 100 = encode 1 0 100" by (simp add: encode_def)
  from 2 3 4 show ?thesis by simp
qed

text \<open>
  Claim C8. The label is a function of the \<open>max_iterations\<close> entry, the iteration
  index and the time step index alone: two model objects that agree on these three get
  the same label, whatever else they hold. A call changes neither \<open>params\<close> nor the two
  counters; it only hands its label to the exporter.
\<close>

theorem label_deterministic:
  assumes "params m1 ''max_iterations'' = params m2 ''max_iterations''"
    and "num_iteration m1 = num_iteration m2"
    and "time_index m1 = time_index m2"
  shows "time_step_label m1 = time_step_label m2
       \<and> (\<forall>m'. save_data_iteration m1 = Inr m' \<longrightarrow>
             params m' = params m1 \<and> num_iteration m' = num_iteration m1
             \<and> time_index m' = time_index m1
             \<and> (\<exists>l. time_step_label m1 = Inr l
                    \<and> iteration_exporter m' = iteration_exporter m1 @ [l]))"
proof -
  from assms have "time_step_label m1 = time_step_label m2"
    by (simp add: time_step_label_def radix_used_def max_iterations_def
        cong: sum.case_cong)
  moreover have "params m' = params m1 \<and> num_iteration m' = num_iteration m1
             \<and> time_index m' = time_index m1
             \<and> (\<exists>l. time_step_label m1 = Inr l
                    \<and> iteration_exporter m' = iteration_exporter m1 @ [l])"
    if "save_data_iteration m1 = Inr m'" for m'
    using that by (auto simp add: save_data_iteration_def split: sum.splits)
  ultimately show ?thesis by blast
qed

theorem label_deterministic_witness:
  "time_step_label \<lparr>params = [''max_iterations'' \<mapsto> 10], num_iteration = 3,
                     time_index = 2, iteration_exporter = []\<rparr> = Inr 203
   \<and> time_step_label \<lparr>params = [''max_iterations'' \<mapsto> 10, ''end_time'' \<mapsto> 2],
                     num_iteration = 3, time_index = 2,
                     iteration_exporter = [0, 1, 100]\<rparr> = Inr 203"
proof -
  let ?m1 = "\<lparr>params = [''max_iterations'' \<mapsto> 10], num_iteration = 3,
                     time_index = 2, iteration_exporter = []\<rparr>"
  let ?m2 = "\<lparr>params = [''max_iterations'' \<mapsto> 10, ''end_time'' \<mapsto> 2],
                     num_iteration = 3, time_index = 2,
                     iteration_exporter = [0, 1, 100]\<rparr>"
  have r: "compute_radix 10 = Inr 100"
    by (simp add: compute_radix_def round_log10_def ilog10_small ilog10_large)
  have 1: "time_step_label ?m1 = Inr 203"
    by (simp add: time_step_label_def radix_used_def max_iterations_def r encode_def)
  have "params ?m1 ''max_iterations'' = params ?m2 ''max_iterations''" by simp
  moreover have "num_iteration ?m1 = num_iteration ?m2" by simp
  moreover have "time_index ?m1 = time_index ?m2" by simp
  ultimately have "time_step_label ?m1 = time_step_label ?m2"
    using label_deterministic [of ?m1 ?m2] by blast
  with 1 show ?thesis by simp
qed

lemma save_data_iteration_radix:
  assumes "save_data_iteration m = Inr m'"
  shows "radix_used m' = radix_used m"
  using assms by (auto simp add: save_data_iteration_def split: sum.splits)

lemma radices_replicate:
  assumes "radix_used m = Inr r"
  shows "radices m cs = replicate (length cs) (Inr r)"
  using assms
proof (induction cs arbitrary: m)
  case Nil
  show ?case by simp
next
  case (Cons c cs)
  let ?m1 = "set_counters m c"
  let ?m2 = "?m1\<lparr>iteration_exporter :=
                  iteration_exporter ?m1 @ [encode (time_index ?m1) (num_iteration ?m1) r]\<rparr>"
  from Cons.prems have r1: "radix_used ?m1 = Inr r" by simp
  from save_data_iteration_Inr [OF r1] have s: "save_data_iteration ?m1 = Inr ?m2" .
  from r1 have "radix_used ?m2 = Inr r" by simp
  from Cons.IH [OF this] have "radices ?m2 cs = replicate (length cs) (Inr r)" .
  with r1 s show ?case by simp
qed

text \<open>
  Claim C9. During a run the radix computed by every call of \<open>save_data_iteration\<close> is
  the radix of the model object the run started with, and it is still that value for the
  model object the run ends with (a run never changes \<open>params\<close>). When that radix is a
  number \<open>r\<close>, every one of the calls takes place and computes \<open>r\<close>.
\<close>

theorem radix_fixed_during_run:
  "(\<forall>x \<in> set (radices m cs). x = radix_used m)
   \<and> (\<forall>m'. run m cs = Inr m' \<longrightarrow> radix_used m' = radix_used m)
   \<and> (\<forall>r. radix_used m = Inr r \<longrightarrow> radices m cs = replicate (length cs) (Inr r))"
proof -
  have "(\<forall>x \<in> set (radices m cs). x = radix_used m)
      \<and> (\<forall>m'. run m cs = Inr m' \<longrightarrow> radix_used m' = radix_used m)"
  proof (induction cs arbitrary: m)
    case Nil
    show ?case by simp
  next
    case (Cons c cs)
    show ?case
    proof (cases "save_data_iteration (set_counters m c)")
      case (Inl e)
      then show ?thesis by simp
    next
      case (Inr m1)
      from save_data_iteration_radix [OF Inr] have "radix_used m1 = radix_used m" by simp
      with Cons.IH [of m1] Inr show ?thesis by simp
    qed
  qed
  with radices_replicate [of m _ cs] show ?thesis by blast
qed

theorem radix_fixed_during_run_witness:
  "radix_used \<lparr>params = [''max_iterations'' \<mapsto> 25], num_iteration = 0,
                time_index = 0, iteration_exporter = []\<rparr> = Inr 100
   \<and> length (radices \<lparr>params = [''max_iterations'' \<mapsto> 25], num_iteration = 0,
                time_index = 0, iteration_exporter = []\<rparr> [(0, 0), (0, 1), (1, 0)]) = 3
   \<and> list_all (\<lambda>x. x = Inr 100)
        (radices \<lparr>params = [''max_iterations'' \<mapsto> 25], num_iteration = 0,
                time_index = 0, iteration_exporter = []\<rparr> [(0, 0), (0, 1), (1, 0)])"
proof -
  let ?m = "\<lparr>params = [''max_iterations'' \<mapsto> 25], num_iteration = 0,
                time_index = 0, iteration_exporter = []\<rparr>"
  let ?cs = "[(0, 0), (0, 1), (1, 0)] :: (int \<times> int) list"
  have r: "compute_radix 25 = Inr 100"
    by (simp add: compute_radix_def round_log10_def ilog10_small ilog10_large)
  have 1: "radix_used ?m = Inr 100" by (simp add: radix_used_def max_iterations_def r)
  have 2: "length (radices ?m ?cs) = 3"
    by (simp add: save_data_iteration_def time_step_label_def radix_used_def
        max_iterations_def set_counters_def r)
  have "\<forall>x \<in> set (radices ?m ?cs). x = radix_used ?m"
    using radix_fixed_during_run [of ?m ?cs] by (rule conjunct1)
  then have "list_all (\<lambda>x. x = radix_used ?m) (radices ?m ?cs)"
    by (simp only: list_all_iff)
  then have 3: "list_all (\<lambda>x. x = Inr 100) (radices ?m ?cs)" by (simp only: 1)
  from 1 2 3 show ?thesis by (intro conjI)
qed

text \<open>
  Claim C10. Without a \<open>max_iterations\<close> entry in \<open>params\<close> the bound is 10 and the
  radix is 100: the call succeeds and writes the label
  \<open>100 * time_index + num_iteration\<close>.
\<close>

theorem default_max_iterations:
  assumes "params m ''max_iterations'' = None"
  shows "max_iterations m = 10 \<and> radix_used m = Inr 100
       \<and> time_step_label m = Inr (100 * time_index m + num_iteration m)
       \<and> save_data_iteration m =
           Inr (m\<lparr>iteration_exporter :=
                    iteration_exporter m @ [100 * time_index m + num_iteration m]\<rparr>)"
proof -
  have r: "compute_radix 10 = Inr 100"
    by (simp add: compute_radix_def round_log10_def ilog10_small ilog10_large)
  from assms have n: "max_iterations m = 10" by (simp add: max_iterations_def)
  then have u: "radix_used m = Inr 100" by (simp add: radix_used_def r)
  then have l: "time_step_label m = Inr (100 * time_index m + num_iteration m)"
    by (simp add: time_step_label_def encode_def)
  then have "save_data_iteration m =
           Inr (m\<lparr>iteration_exporter :=
                    iteration_exporter m @ [100 * time_index m + num_iteration m]\<rparr>)"
    by (simp add: save_data_iteration_def)
  with n u l show ?thesis by simp
qed

theorem default_max_iterations_witness:
  "params \<lparr>params = [''end_time'' \<mapsto> 2], num_iteration = 4, time_index = 1,
            iteration_exporter = []\<rparr> ''max_iterations'' = None
   \<and> save_data_iteration \<lparr>params = [''end_time'' \<mapsto> 2], num_iteration = 4,
            time_index = 1, iteration_exporter = []\<rparr>
       = Inr \<lparr>params = [''end_time'' \<mapsto> 2], num_iteration = 4, time_index = 1,
            iteration_exporter = [104]\<rparr>"
proof -
  let ?m = "\<lparr>params = [''end_time'' \<mapsto> 2], num_iteration = 4, time_index = 1,
            iteration_exporter = []\<rparr>"
  have 1: "params ?m ''max_iterations'' = None" by simp
  from default_max_iterations [OF 1] 1 show ?thesis by simp
qed

subsection \<open>Failure of the radix computation\<close>

text \<open>
  Claim C5, as stated, asks for an InvalidConfiguration error when \<open>max_iterations\<close> is
  not positive. At \<open>max_iterations = 0\<close> the computation raises OverflowError instead.
\<close>

theorem compute_radix_zero_not_invalid_configuration:
  "compute_radix 0 = Inl OverflowError \<and> compute_radix 0 \<noteq> Inl InvalidConfiguration"
  by (simp add: compute_radix_def round_log10_def)

text \<open>
  Claim C5, amended. The radix computation raises an exception exactly when
  \<open>max_iterations\<close> is zero, negative, or \<open>2\<^sup>6\<^sup>4\<close> or more. The exception is
  TypeError, raised by \<open>np.log10\<close>, below \<open>-2\<^sup>6\<^sup>3\<close> and from \<open>2\<^sup>6\<^sup>4\<close> on; otherwise
  it is the one that \<open>round\<close> raises on the logarithm, OverflowError at zero and
  ValueError below zero. It is never InvalidConfiguration. For every positive integer
  below \<open>2\<^sup>6\<^sup>4\<close> the computation returns a radix.
\<close>

theorem compute_radix_failure:
  "((\<exists>e. compute_radix n = Inl e) \<longleftrightarrow> n \<le> 0 \<or> 2 ^ 64 \<le> n)
   \<and> compute_radix n \<noteq> Inl InvalidConfiguration
   \<and> (n < - (2 ^ 63) \<or> 2 ^ 64 \<le> n \<longrightarrow> compute_radix n = Inl TypeError)
   \<and> (n = 0 \<longrightarrow> compute_radix n = Inl OverflowError)
   \<and> (- (2 ^ 63) \<le> n \<and> n < 0 \<longrightarrow> compute_radix n = Inl ValueError)
   \<and> (0 < n \<and> n < 2 ^ 64 \<longrightarrow> (\<exists>r. compute_radix n = Inr r))"
proof (cases "0 < n \<and> n < 2 ^ 64")
  case True
  then have "0 < n" and "n < 2 ^ 64" by simp_all
  from compute_radix_pos [OF this] True show ?thesis by simp
next
  case False
  then show ?thesis by (auto simp add: compute_radix_def round_log10_def)
qed

theorem compute_radix_failure_witness:
  "compute_radix 0 = Inl OverflowError \<and> compute_radix (- 3) = Inl ValueError
   \<and> compute_radix (- 9223372036854775809) = Inl TypeError
   \<and> compute_radix 18446744073709551616 = Inl TypeError
   \<and> compute_radix 7 = Inr 10"
proof -
  have "compute_radix 7 = Inr 10"
    by (simp add: compute_radix_def round_log10_def ilog10_small)
  with compute_radix_failure [of 0] compute_radix_failure [of "- 3"]
    compute_radix_failure [of "- 9223372036854775809"]
    compute_radix_failure [of 18446744073709551616]
  show ?thesis by simp
qed

end
